theory Spec2Isabelle
  imports Main "HOL-Library.Multiset"
begin

section \<open>JavaScript values used by the registry\<close>

text \<open>
  A JavaScript number is a finite number, \<^verbatim>\<open>NaN\<close> or one of the two infinities. The
  finite numbers are integers here: a sequence number is an integer used for ordering
  only.
\<close>

datatype jsnum = NaN | Fin int | PosInf | NegInf

text \<open>ToBoolean on a number: \<open>0\<close> and \<^verbatim>\<open>NaN\<close> are falsy.\<close>

fun num_truthy :: "jsnum \<Rightarrow> bool" where
  "num_truthy NaN = False"
| "num_truthy (Fin n) = (n \<noteq> 0)"
| "num_truthy PosInf = True"
| "num_truthy NegInf = True"

text \<open>
  The subtraction of two numbers. Of a finite difference only the sign is used below, and
  the sign of a difference of two finite numbers is that of the exact difference.
\<close>

fun js_minus :: "jsnum \<Rightarrow> jsnum \<Rightarrow> jsnum" where
  "js_minus NaN y = NaN"
| "js_minus (Fin a) NaN = NaN"
| "js_minus (Fin a) (Fin b) = Fin (a - b)"
| "js_minus (Fin a) PosInf = NegInf"
| "js_minus (Fin a) NegInf = PosInf"
| "js_minus PosInf NaN = NaN"
| "js_minus PosInf (Fin b) = PosInf"
| "js_minus PosInf PosInf = NaN"
| "js_minus PosInf NegInf = PosInf"
| "js_minus NegInf NaN = NaN"
| "js_minus NegInf (Fin b) = NegInf"
| "js_minus NegInf PosInf = NegInf"
| "js_minus NegInf NegInf = NaN"

text \<open>
  The registry of \<^verbatim>\<open>src/core/registry.ts\<close> stores values of type \<^verbatim>\<open>any\<close>.
  They are modelled by the JavaScript values the methods can tell apart: \<^verbatim>\<open>undefined\<close>,
  \<^verbatim>\<open>null\<close>, booleans, numbers, strings, arrays and opaque object references.
\<close>

datatype jsval =
    Undefined
  | Null
  | Bool bool
  | Num jsnum
  | Str string
  | Arr "jsval list"
  | Obj nat

text \<open>ToBoolean, for the values above (arrays and objects are always truthy).\<close>

fun truthy :: "jsval \<Rightarrow> bool" where
  "truthy Undefined = False"
| "truthy Null = False"
| "truthy (Bool b) = b"
| "truthy (Num n) = num_truthy n"
| "truthy (Str s) = (s \<noteq> [])"
| "truthy (Arr xs) = True"
| "truthy (Obj a) = True"

text \<open>
  A sequence number has the TypeScript type \<^verbatim>\<open>number | undefined\<close>
  (\<^verbatim>\<open>sequence?: number\<close>): \<open>None\<close> is \<^verbatim>\<open>undefined\<close>.
\<close>

type_synonym seqnum = "jsnum option"

definition seq_truthy :: "seqnum \<Rightarrow> bool" where
  "seq_truthy s = (case s of None \<Rightarrow> False | Some n \<Rightarrow> num_truthy n)"

definition seq_to_js :: "seqnum \<Rightarrow> jsval" where
  "seq_to_js s = (case s of None \<Rightarrow> Undefined | Some n \<Rightarrow> Num n)"

text \<open>ToNumber on a sequence number: \<^verbatim>\<open>undefined\<close> becomes \<^verbatim>\<open>NaN\<close>.\<close>

definition to_number :: "seqnum \<Rightarrow> jsnum" where
  "to_number s = (case s of None \<Rightarrow> NaN | Some n \<Rightarrow> n)"

text \<open>An element of \<^verbatim>\<open>content\<close> is the two-element array \<^verbatim>\<open>[sequence, value]\<close>.\<close>

type_synonym elem = "seqnum \<times> jsval"

definition elem_to_js :: "elem \<Rightarrow> jsval" where
  "elem_to_js e = Arr [seq_to_js (fst e), snd e]"

section \<open>The JavaScript Map, in insertion order\<close>

text \<open>
  A \<^verbatim>\<open>Map<string, any>\<close> iterates in insertion order; \<^verbatim>\<open>set\<close> on a key that is
  present replaces the value where it stands, on a new key it appends. The map is an
  association list with that behaviour.
\<close>

fun map_get :: "(string \<times> 'a) list \<Rightarrow> string \<Rightarrow> 'a option" where
  "map_get [] k = None"
| "map_get ((k', v) # m) k = (if k' = k then Some v else map_get m k)"

definition map_has :: "(string \<times> 'a) list \<Rightarrow> string \<Rightarrow> bool" where
  "map_has m k = (case map_get m k of None \<Rightarrow> False | Some v \<Rightarrow> True)"

fun map_set :: "(string \<times> 'a) list \<Rightarrow> string \<Rightarrow> 'a \<Rightarrow> (string \<times> 'a) list" where
  "map_set [] k v = [(k, v)]"
| "map_set ((k', v') # m) k v = (if k' = k then (k, v) # m else (k', v') # map_set m k v)"

fun map_delete :: "(string \<times> 'a) list \<Rightarrow> string \<Rightarrow> (string \<times> 'a) list" where
  "map_delete [] k = []"
| "map_delete ((k', v') # m) k =
     (if k' = k then map_delete m k else (k', v') # map_delete m k)"

section \<open>Array.prototype.sort with the registry's comparator\<close>

text \<open>
  The comparator of \<^verbatim>\<open>getAll\<close> and \<^verbatim>\<open>getEntries\<close> is
  \<^verbatim>\<open>(el1, el2) => el1[1][0] - el2[1][0]\<close>, on the pairs \<^verbatim>\<open>[key, [sequence, value]]\<close>
  of the map. The difference is \<^verbatim>\<open>NaN\<close> when a sequence is \<^verbatim>\<open>undefined\<close> or
  \<^verbatim>\<open>NaN\<close>, and for two infinities of the same sign.
\<close>

definition by_sequence :: "string \<times> elem \<Rightarrow> string \<times> elem \<Rightarrow> jsnum" where
  "by_sequence el1 el2 = js_minus (to_number (fst (snd el1))) (to_number (fst (snd el2)))"

text \<open>The sort reads a comparator result \<^verbatim>\<open>NaN\<close> as \<open>+0\<close>, and then looks at the sign.\<close>

definition sort_compare :: "('a \<Rightarrow> 'a \<Rightarrow> jsnum) \<Rightarrow> 'a \<Rightarrow> 'a \<Rightarrow> jsnum" where
  "sort_compare cmp x y = (case cmp x y of NaN \<Rightarrow> Fin 0 | v \<Rightarrow> v)"

fun is_negative :: "jsnum \<Rightarrow> bool" where
  "is_negative (Fin d) = (d < 0)"
| "is_negative NegInf = True"
| "is_negative v = False"

fun is_positive :: "jsnum \<Rightarrow> bool" where
  "is_positive (Fin d) = (0 < d)"
| "is_positive PosInf = True"
| "is_positive v = False"

text \<open>
  The language fixes the result of the sort only for a consistent comparator, one that
  never returns \<^verbatim>\<open>NaN\<close> on the array and orders it: the result is then the stable sort
  (ECMAScript 2019), in which an element moves behind exactly those it compares greater
  than. It is written as the stable insertion of each element into the sorted rest.
\<close>

fun stable_insert :: "('a \<Rightarrow> 'a \<Rightarrow> jsnum) \<Rightarrow> 'a \<Rightarrow> 'a list \<Rightarrow> 'a list" where
  "stable_insert cmp x [] = [x]"
| "stable_insert cmp x (y # ys) =
     (if is_positive (sort_compare cmp x y) then y # stable_insert cmp x ys else x # y # ys)"

fun stable_sort :: "('a \<Rightarrow> 'a \<Rightarrow> jsnum) \<Rightarrow> 'a list \<Rightarrow> 'a list" where
  "stable_sort cmp [] = []"
| "stable_sort cmp (x # xs) = stable_insert cmp x (stable_sort cmp xs)"

definition never_nan :: "('a \<Rightarrow> 'a \<Rightarrow> jsnum) \<Rightarrow> 'a list \<Rightarrow> bool" where
  "never_nan cmp xs = list_all (\<lambda>x. list_all (\<lambda>y. cmp x y \<noteq> NaN) xs) xs"

text \<open>
  With a comparator that returns \<^verbatim>\<open>NaN\<close> on the array the order of the result is left
  to the implementation. The sort of the engine is a parameter for that case: a function
  from the comparator and the array to the sorted array.
\<close>

type_synonym 'a sorter = "('a \<Rightarrow> 'a \<Rightarrow> jsnum) \<Rightarrow> 'a list \<Rightarrow> 'a list"

text \<open>
  \<^verbatim>\<open>[...this.content].sort((el1, el2) => el1[1][0] - el2[1][0])\<close>. The comparator is a
  difference of numbers, so it is consistent on an array exactly when none of the
  differences is \<^verbatim>\<open>NaN\<close>.
\<close>

definition sort_by_sequence :: "(string \<times> elem) sorter \<Rightarrow> (string \<times> elem) list
    \<Rightarrow> (string \<times> elem) list" where
  "sort_by_sequence engine xs =
     (if never_nan by_sequence xs then stable_sort by_sequence xs else engine by_sequence xs)"

subsection \<open>The sort of one engine\<close>

text \<open>
  The V8 engine sorts an array of fewer than 64 elements in two steps. It first finds
  the run the array starts with, ascending (each element not less than the one before)
  or strictly descending, and reverses a descending run; it then inserts each remaining
  element into the sorted front at the place a binary search finds. These functions are
  that algorithm; they serve as the engine in the examples, whose arrays have at most
  four elements.
\<close>

fun run_length :: "('a \<Rightarrow> 'a \<Rightarrow> jsnum) \<Rightarrow> bool \<Rightarrow> 'a \<Rightarrow> 'a list \<Rightarrow> nat" where
  "run_length cmp descending previous [] = 0"
| "run_length cmp descending previous (x # xs) =
     (let order = sort_compare cmp x previous
      in if (if descending then \<not> is_negative order else is_negative order) then 0
         else Suc (run_length cmp descending x xs))"

definition count_and_make_run :: "('a \<Rightarrow> 'a \<Rightarrow> jsnum) \<Rightarrow> 'a list \<Rightarrow> nat \<times> 'a list" where
  "count_and_make_run cmp xs =
     (case xs of
        x0 # x1 # rest \<Rightarrow>
          (let descending = is_negative (sort_compare cmp x1 x0);
               n = 2 + run_length cmp descending x1 rest
           in (n, if descending then rev (take n xs) @ drop n xs else xs))
      | _ \<Rightarrow> (length xs, xs))"

function binary_position :: "('a \<Rightarrow> 'a \<Rightarrow> jsnum) \<Rightarrow> 'a \<Rightarrow> 'a list \<Rightarrow> nat \<Rightarrow> nat \<Rightarrow> nat" where
  "binary_position cmp pivot a left right =
     (if left < right
      then (let mid = left + (right - left) div 2
            in if is_negative (sort_compare cmp pivot (a ! mid))
               then binary_position cmp pivot a left mid
               else binary_position cmp pivot a (mid + 1) right)
      else left)"
  by pat_completeness auto
termination
  by (relation "measure (\<lambda>(cmp, pivot, a, left, right). right - left)") auto

declare binary_position.simps [simp del]

fun binary_insert_all :: "('a \<Rightarrow> 'a \<Rightarrow> jsnum) \<Rightarrow> 'a list \<Rightarrow> 'a list \<Rightarrow> 'a list" where
  "binary_insert_all cmp front [] = front"
| "binary_insert_all cmp front (pivot # rest) =
     (let p = binary_position cmp pivot front 0 (length front)
      in binary_insert_all cmp (take p front @ pivot # drop p front) rest)"

definition binary_insertion_sort :: "'a sorter" where
  "binary_insertion_sort cmp xs =
     (if length xs < 2 then xs
      else (let (n, a) = count_and_make_run cmp xs
            in binary_insert_all cmp (take n a) (drop n a)))"

section \<open>Errors and events\<close>

text \<open>
  The three classes of error the registry throws, each with its message:
  \<^verbatim>\<open>KeyNotFoundError\<close>, \<^verbatim>\<open>DuplicatedKeyError\<close> and the plain \<^verbatim>\<open>Error\<close> of
  \<^verbatim>\<open>addValidation\<close> and \<^verbatim>\<open>validateSchema\<close>.
\<close>

datatype error =
    KeyNotFoundError string
  | DuplicatedKeyError string
  | Error string

definition key_not_found_msg :: "string \<Rightarrow> string" where
  "key_not_found_msg k = ''Cannot find '' @ k @ '' in this registry!''"

definition duplicated_key_msg :: "string \<Rightarrow> string" where
  "duplicated_key_msg k =
     ''Cannot add '' @ [CHR 0x27] @ k @ [CHR 0x27] @ '' in this registry: it already exists''"

definition schema_already_set_msg :: string where
  "schema_already_set_msg = ''Validation schema already set on this registry''"

definition validation_error_msg :: "string \<Rightarrow> string \<Rightarrow> string \<Rightarrow> string" where
  "validation_error_msg nm k err =
     ''Validation error for key '' @ [CHR 0x22] @ k @ [CHR 0x22] @ '' in registry ''
       @ [CHR 0x22] @ nm @ [CHR 0x22] @ '': '' @ err"

datatype operation = OpAdd | OpDelete

text \<open>The payload \<^verbatim>\<open>{operation, key, value}\<close> of an UPDATE event.\<close>

record payload =
  operation :: operation
  key :: string
  payload_value :: jsval

text \<open>
  What a subscriber of UPDATE receives: the payload, and the two caches of the registry
  as they are when the subscriber is called.
\<close>

record delivery =
  detail :: payload
  seen_elements :: "jsval list option"
  seen_entries :: "(string \<times> jsval) list option"

section \<open>The registry\<close>

text \<open>
  The fields of the class \<^verbatim>\<open>Registry\<close>. A sub-registry is an object of its own, held
  by reference (an index into the heap below). In the two caches \<open>None\<close> is
  \<^verbatim>\<open>null\<close>. The schema has the type \<^verbatim>\<open>any\<close> and is tested for truthiness; the
  schemas of the validation library are arrays and objects. The field \<open>emitted\<close> stands
  for the event bus the class extends: the UPDATE events delivered to the subscribers
  other than the registry's own listener, in order.
\<close>

record registry =
  content :: "(string \<times> elem) list"
  subRegistries :: "(string \<times> nat) list"
  elements :: "jsval list option"
  entries :: "(string \<times> jsval) list option"
  name :: string
  validationSchema :: jsval
  emitted :: "delivery list"

text \<open>The constructor, \<^verbatim>\<open>constructor(name="root")\<close>: \<open>None\<close> is an omitted argument.\<close>

definition new_Registry :: "string option \<Rightarrow> registry" where
  "new_Registry nm =
     \<lparr> content = [], subRegistries = [], elements = None, entries = None,
       name = (case nm of None \<Rightarrow> ''root'' | Some n \<Rightarrow> n),
       validationSchema = Null, emitted = [] \<rparr>"

text \<open>
  The listener the constructor registers on UPDATE. It is registered before the object is
  handed to anyone, so it is the first listener the event bus calls.
\<close>

definition invalidate :: "registry \<Rightarrow> registry" where
  "invalidate r = r\<lparr> elements := None, entries := None \<rparr>"

definition deliver :: "payload \<Rightarrow> registry \<Rightarrow> registry" where
  "deliver p r =
     r\<lparr> emitted := emitted r @
          [\<lparr> detail = p, seen_elements = elements r, seen_entries = entries r \<rparr>] \<rparr>"

text \<open>\<^verbatim>\<open>this.trigger("UPDATE", payload)\<close>: the listeners run in the order of registration.\<close>

definition trigger :: "payload \<Rightarrow> registry \<Rightarrow> registry" where
  "trigger p r = deliver p (invalidate r)"

subsection \<open>add\<close>

text \<open>
  The third parameter of \<^verbatim>\<open>add\<close> is an options object, destructured into
  \<^verbatim>\<open>force\<close> and \<^verbatim>\<open>sequence\<close>; when it is omitted the default object
  \<^verbatim>\<open>{ force: false, sequence: 50 }\<close> is taken, and a property the object lacks is
  \<^verbatim>\<open>undefined\<close>.
\<close>

record add_options =
  force :: "bool option"
  sequence :: seqnum

definition default_options :: add_options where
  "default_options = \<lparr> force = Some False, sequence = Some (Fin 50) \<rparr>"

definition add :: "string \<Rightarrow> jsval \<Rightarrow> add_options option \<Rightarrow> registry
    \<Rightarrow> (error + unit) \<times> registry" where
  "add k v options r =
     (let opts = (case options of None \<Rightarrow> default_options | Some ob \<Rightarrow> ob);
          forced = (force opts = Some True)
      in if \<not> forced \<and> map_has (content r) k
         then (Inl (DuplicatedKeyError (duplicated_key_msg k)), r)
         else
           let previousSequence =
                 (if forced
                  then (case map_get (content r) k of None \<Rightarrow> None | Some el \<Rightarrow> fst el)
                  else None);
               sequence' =
                 (if seq_truthy (sequence opts)
                  then (if seq_truthy previousSequence then previousSequence
                        else Some (Fin 50))
                  else sequence opts);
               r' = r\<lparr> content := map_set (content r) k (sequence', v) \<rparr>
           in (Inr (), trigger \<lparr> operation = OpAdd, key = k, payload_value = v \<rparr> r'))"

subsection \<open>get and contains\<close>

text \<open>
  The second parameter of \<^verbatim>\<open>get\<close> has the default \<^verbatim>\<open>undefined\<close>: an omitted
  fallback is the value \<open>Undefined\<close>.
\<close>

definition get :: "string \<Rightarrow> jsval \<Rightarrow> registry \<Rightarrow> error + jsval" where
  "get k defaultValue r =
     (if defaultValue = Undefined \<and> \<not> map_has (content r) k
      then Inl (KeyNotFoundError (key_not_found_msg k))
      else (case map_get (content r) k of
              Some info \<Rightarrow> Inr (snd info)
            | None \<Rightarrow> Inr defaultValue))"

definition contains :: "string \<Rightarrow> registry \<Rightarrow> bool" where
  "contains k r = map_has (content r) k"

subsection \<open>getAll and getEntries\<close>

text \<open>Both methods take the sort of the engine, for the arrays it alone decides.\<close>

definition sorted_content :: "(string \<times> elem) sorter \<Rightarrow> registry \<Rightarrow> (string \<times> elem) list" where
  "sorted_content engine r = sort_by_sequence engine (content r)"

definition getAll :: "(string \<times> elem) sorter \<Rightarrow> registry \<Rightarrow> jsval list \<times> registry" where
  "getAll engine r =
     (case elements r of
        None \<Rightarrow>
          (let es = map (\<lambda>(str, el). snd el) (sorted_content engine r)
           in (es, r\<lparr> elements := Some es \<rparr>))
      | Some es \<Rightarrow> (es, r))"

definition getEntries :: "(string \<times> elem) sorter \<Rightarrow> registry
    \<Rightarrow> (string \<times> jsval) list \<times> registry" where
  "getEntries engine r =
     (case entries r of
        None \<Rightarrow>
          (let es = map (\<lambda>(str, el). (str, snd el)) (sorted_content engine r)
           in (es, r\<lparr> entries := Some es \<rparr>))
      | Some es \<Rightarrow> (es, r))"

subsection \<open>remove\<close>

definition remove :: "string \<Rightarrow> registry \<Rightarrow> registry" where
  "remove k r =
     (let v = (case map_get (content r) k of None \<Rightarrow> Undefined | Some el \<Rightarrow> elem_to_js el);
          r' = r\<lparr> content := map_delete (content r) k \<rparr>
      in trigger \<lparr> operation = OpDelete, key = k, payload_value = v \<rparr> r')"

subsection \<open>addValidation\<close>

text \<open>
  \<^verbatim>\<open>validate(value, schema)\<close> belongs to the component library; it is a parameter
  here, returning the text of the error it throws, or \<open>None\<close> when the value conforms.
\<close>

definition validateSchema :: "(jsval \<Rightarrow> jsval \<Rightarrow> string option) \<Rightarrow> string \<Rightarrow> string \<Rightarrow> jsval \<Rightarrow> jsval
    \<Rightarrow> error + unit" where
  "validateSchema validate nm k v schema =
     (case validate v schema of
        None \<Rightarrow> Inr ()
      | Some err \<Rightarrow> Inl (Error (validation_error_msg nm k err)))"

fun validate_entries :: "(jsval \<Rightarrow> jsval \<Rightarrow> string option) \<Rightarrow> string \<Rightarrow> jsval
    \<Rightarrow> (string \<times> jsval) list \<Rightarrow> error + unit" where
  "validate_entries validate nm schema [] = Inr ()"
| "validate_entries validate nm schema ((k, v) # es) =
     (case validateSchema validate nm k v schema of
        Inl e \<Rightarrow> Inl e
      | Inr u \<Rightarrow> validate_entries validate nm schema es)"

definition addValidation :: "(string \<times> elem) sorter \<Rightarrow> (jsval \<Rightarrow> jsval \<Rightarrow> string option)
    \<Rightarrow> jsval \<Rightarrow> registry \<Rightarrow> (error + unit) \<times> registry" where
  "addValidation engine validate schema r =
     (if truthy (validationSchema r)
      then (Inl (Error schema_already_set_msg), r)
      else
        (let r1 = r\<lparr> validationSchema := schema \<rparr>;
             (es, r2) = getEntries engine r1
         in (validate_entries validate (name r2) schema es, r2)))"

subsection \<open>category, on a heap of registries\<close>

text \<open>
  Registries are objects: \<^verbatim>\<open>category\<close> returns a reference, and two calls return the
  same instance when they return the same reference. The heap is the list of the objects
  allocated so far, a reference is an index into it, and \<^verbatim>\<open>new Registry()\<close> appends.
\<close>

type_synonym heap = "registry list"

definition category :: "string \<Rightarrow> nat \<Rightarrow> heap \<Rightarrow> nat \<times> heap" where
  "category subcategory this h =
     (case map_get (subRegistries (h ! this)) subcategory of
        Some c \<Rightarrow> (c, h)
      | None \<Rightarrow>
          (let c = length h;
               h1 = h @ [new_Registry None];
               self = h1 ! this
           in (c, h1[this := self\<lparr> subRegistries :=
                                  map_set (subRegistries self) subcategory c \<rparr>])))"

text \<open>A method call on the object at a reference, and its effect on the heap.\<close>

datatype call =
    Add nat string jsval "add_options option"
  | Get nat string jsval
  | Contains nat string
  | GetAll nat
  | GetEntries nat
  | Remove nat string
  | Category nat string
  | AddValidation nat jsval

fun target :: "call \<Rightarrow> nat" where
  "target (Add a k v ob) = a"
| "target (Get a k d) = a"
| "target (Contains a k) = a"
| "target (GetAll a) = a"
| "target (GetEntries a) = a"
| "target (Remove a k) = a"
| "target (Category a s) = a"
| "target (AddValidation a s) = a"

fun exec :: "(string \<times> elem) sorter \<Rightarrow> (jsval \<Rightarrow> jsval \<Rightarrow> string option) \<Rightarrow> call \<Rightarrow> heap
    \<Rightarrow> heap" where
  "exec engine validate (Add a k v ob) h = h[a := snd (add k v ob (h ! a))]"
| "exec engine validate (Get a k d) h = h"
| "exec engine validate (Contains a k) h = h"
| "exec engine validate (GetAll a) h = h[a := snd (getAll engine (h ! a))]"
| "exec engine validate (GetEntries a) h = h[a := snd (getEntries engine (h ! a))]"
| "exec engine validate (Remove a k) h = h[a := remove k (h ! a)]"
| "exec engine validate (Category a s) h = snd (category s a h)"
| "exec engine validate (AddValidation a s) h =
     h[a := snd (addValidation engine validate s (h ! a))]"

fun exec_all :: "(string \<times> elem) sorter \<Rightarrow> (jsval \<Rightarrow> jsval \<Rightarrow> string option) \<Rightarrow> call list
    \<Rightarrow> heap \<Rightarrow> heap" where
  "exec_all engine validate [] h = h"
| "exec_all engine validate (c # cs) h = exec_all engine validate cs (exec engine validate c h)"

text \<open>A sequence of calls is well-formed on a heap when each call is made on an object
  that exists when the call is made.\<close>

fun calls_ok :: "(string \<times> elem) sorter \<Rightarrow> (jsval \<Rightarrow> jsval \<Rightarrow> string option) \<Rightarrow> call list
    \<Rightarrow> heap \<Rightarrow> bool" where
  "calls_ok engine validate [] h = True"
| "calls_ok engine validate (c # cs) h =
     (target c < length h \<and> calls_ok engine validate cs (exec engine validate c h))"

text \<open>A chain of \<^verbatim>\<open>add\<close> calls; the first exception ends it.\<close>

fun add_all :: "(string \<times> jsval \<times> add_options option) list \<Rightarrow> registry
    \<Rightarrow> (error + unit) \<times> registry" where
  "add_all [] r = (Inr (), r)"
| "add_all ((k, v, ob) # as) r =
     (case add k v ob r of
        (Inl e, r') \<Rightarrow> (Inl e, r')
      | (Inr u, r') \<Rightarrow> add_all as r')"

section \<open>What the spec says of the order and of the caches\<close>

text \<open>
  The registries whose stored sequences are all finite numbers: on their content the
  comparator never returns \<^verbatim>\<open>NaN\<close>.
\<close>

fun is_finite :: "seqnum \<Rightarrow> bool" where
  "is_finite (Some (Fin n)) = True"
| "is_finite s = False"

definition finite_sequences :: "(string \<times> elem) list \<Rightarrow> bool" where
  "finite_sequences m = list_all (\<lambda>(str, el). is_finite (fst el)) m"

definition sequence_of :: "string \<times> elem \<Rightarrow> int" where
  "sequence_of e = (case fst (snd e) of Some (Fin n) \<Rightarrow> n | _ \<Rightarrow> 0)"






text \<open>
  In every registry, a cache that is present is what the method would compute now: the
  projection of the content in the order the sort returns.
\<close>

definition cache_ok :: "(string \<times> elem) sorter \<Rightarrow> registry \<Rightarrow> bool" where
  "cache_ok engine r =
     ((case elements r of
         None \<Rightarrow> True
       | Some es \<Rightarrow> es = map (\<lambda>(str, el). snd el) (sorted_content engine r))
      \<and> (case entries r of
           None \<Rightarrow> True
         | Some es \<Rightarrow> es = map (\<lambda>(str, el). (str, snd el)) (sorted_content engine r)))"

section \<open>Examples\<close>

text \<open>
  A schema object and a validator for the examples: a value conforms when it is a string.
\<close>

definition demo_schema :: jsval where
  "demo_schema = Obj 0"

definition demo_validate :: "jsval \<Rightarrow> jsval \<Rightarrow> string option" where
  "demo_validate v s = (case v of Str x \<Rightarrow> None | _ \<Rightarrow> Some ''Error: Invalid object'')"



text \<open>
  The registry after \<^verbatim>\<open>add("k0", "v0")\<close>, \<^verbatim>\<open>add("k1", "v1", {sequence: 0})\<close>,
  \<^verbatim>\<open>add("k2", 2, {})\<close> and \<^verbatim>\<open>add("k3", 3, {sequence: 0})\<close>.
\<close>

definition store_k :: registry where
  "store_k =
     snd (add ''k3'' (Num (Fin 3)) (Some \<lparr>force = None, sequence = Some (Fin 0)\<rparr>)
       (snd (add ''k2'' (Num (Fin 2)) (Some \<lparr>force = None, sequence = None\<rparr>)
         (snd (add ''k1'' (Str ''v1'') (Some \<lparr>force = None, sequence = Some (Fin 0)\<rparr>)
           (snd (add ''k0'' (Str ''v0'') None (new_Registry None))))))))"

section \<open>Facts about the map and the sort\<close>

lemma map_get_map_set: "map_get (map_set m k v) k' = (if k' = k then Some v else map_get m k')"
  by (induction m) auto

lemma map_get_map_delete: "map_get (map_delete m k) k' = (if k' = k then None else map_get m k')"
  by (induction m) auto

lemma map_delete_absent: "map_get m k = None \<Longrightarrow> map_delete m k = m"
  by (induction m) (auto split: if_splits)

lemma map_has_map_set: "map_has (map_set m k v) k' = (k' = k \<or> map_has m k')"
  by (simp add: map_has_def map_get_map_set)





lemma finite_sequences_Cons:
  "finite_sequences (x # xs) = (is_finite (fst (snd x)) \<and> finite_sequences xs)"
  by (cases x) (simp add: finite_sequences_def)

lemma finite_sequences_iff:
  "finite_sequences xs = (\<forall>x \<in> set xs. is_finite (fst (snd x)))"
  by (induction xs) (simp_all add: finite_sequences_Cons, simp add: finite_sequences_def)



lemma finite_sequences_insort:
  "is_finite (fst (snd x)) \<Longrightarrow> finite_sequences ys
     \<Longrightarrow> finite_sequences (insort_key sequence_of x ys)"
  by (simp add: finite_sequences_iff set_insort_key)




lemma mset_stable_insert: "mset (stable_insert cmp x ys) = add_mset x (mset ys)"
  by (induction ys) auto

lemma mset_stable_sort: "mset (stable_sort cmp xs) = mset xs"
  by (induction xs) (auto simp: mset_stable_insert)

lemma mset_sort_by_sequence:
  "\<forall>xs. mset (engine by_sequence xs) = mset xs \<Longrightarrow> mset (sort_by_sequence engine xs) = mset xs"
  by (simp add: sort_by_sequence_def mset_stable_sort)

lemma set_sort_by_sequence:
  "\<forall>xs. mset (engine by_sequence xs) = mset xs \<Longrightarrow> set (sort_by_sequence engine xs) = set xs"
  using mset_sort_by_sequence [of engine xs] by (metis set_mset_mset)

lemma mset_take_drop: "mset (take p ys) + mset (drop p ys) = mset ys"
  by (metis append_take_drop_id mset_append)

lemma mset_binary_insert_all:
  "mset (binary_insert_all cmp front rest) = mset front + mset rest"
  by (induction rest arbitrary: front) (simp_all add: Let_def mset_take_drop)

lemma mset_rev_take_drop: "mset (rev (take n xs) @ drop n xs) = mset xs"
proof -
  have "mset (take n xs @ drop n xs) = mset xs" by simp
  then show ?thesis by (simp del: append_take_drop_id)
qed

lemma mset_count_and_make_run: "mset (snd (count_and_make_run cmp xs)) = mset xs"
proof (cases xs)
  case Nil
  then show ?thesis by (simp add: count_and_make_run_def)
next
  case outer: (Cons x0 ys)
  show ?thesis
  proof (cases ys)
    case Nil
    with outer show ?thesis by (simp add: count_and_make_run_def)
  next
    case (Cons x1 rest)
    define d where "d = is_negative (sort_compare cmp x1 x0)"
    define n where "n = 2 + run_length cmp d x1 rest"
    have "snd (count_and_make_run cmp xs) = (if d then rev (take n xs) @ drop n xs else xs)"
      unfolding count_and_make_run_def outer Cons d_def n_def by (simp add: Let_def)
    then show ?thesis
      using mset_rev_take_drop [of n xs] by (cases d) simp_all
  qed
qed

lemma mset_binary_insertion_sort: "mset (binary_insertion_sort cmp xs) = mset xs"
proof (cases "length xs < 2")
  case True
  then show ?thesis by (simp add: binary_insertion_sort_def)
next
  case False
  obtain n a where na: "count_and_make_run cmp xs = (n, a)" by (cases "count_and_make_run cmp xs")
  have "mset a = mset xs" using mset_count_and_make_run [of cmp xs] na by simp
  moreover have "mset (take n a @ drop n a) = mset a" by simp
  ultimately show ?thesis
    using False na by (simp add: binary_insertion_sort_def mset_binary_insert_all del: append_take_drop_id)
qed


section \<open>The claims\<close>

lemmas method_defs = add_def remove_def getAll_def getEntries_def trigger_def deliver_def
  invalidate_def get_def contains_def sorted_content_def default_options_def

lemmas value_defs = map_has_def seq_truthy_def seq_to_js_def elem_to_js_def by_sequence_def
  to_number_def sort_compare_def never_nan_def sort_by_sequence_def new_Registry_def


text \<open>
  Claim C1. On an empty registry, \<^verbatim>\<open>add("a", v1, {sequence: 10})\<close> followed by
  \<^verbatim>\<open>add("b", v2, {sequence: 5})\<close> stores both entries under the sequence 50, not
  under 10 and 5, and \<^verbatim>\<open>getAll()\<close> returns \<open>[v1, v2]\<close>, the insertion order,
  where the claim says \<open>[v2, v1]\<close>: the test \<^verbatim>\<open>sequence ? ... : sequence\<close> replaces a
  sequence that is supplied and keeps one that is not.
\<close>

theorem add_explicit_sequence_stored_as_50:
  "map_get (content (snd (add ''b'' (Str ''v2'') (Some \<lparr>force = None, sequence = Some (Fin 5)\<rparr>)
      (snd (add ''a'' (Str ''v1'') (Some \<lparr>force = None, sequence = Some (Fin 10)\<rparr>)
        (new_Registry None)))))) ''a'' = Some (Some (Fin 50), Str ''v1'')
   \<and> map_get (content (snd (add ''b'' (Str ''v2'') (Some \<lparr>force = None, sequence = Some (Fin 5)\<rparr>)
      (snd (add ''a'' (Str ''v1'') (Some \<lparr>force = None, sequence = Some (Fin 10)\<rparr>)
        (new_Registry None)))))) ''b'' = Some (Some (Fin 50), Str ''v2'')
   \<and> fst (getAll engine (snd (add ''b'' (Str ''v2'') (Some \<lparr>force = None, sequence = Some (Fin 5)\<rparr>)
      (snd (add ''a'' (Str ''v1'') (Some \<lparr>force = None, sequence = Some (Fin 10)\<rparr>)
        (new_Registry None)))))) = [Str ''v1'', Str ''v2'']"
  by (simp add: method_defs value_defs Let_def)

text \<open>
  Claim C2. After \<^verbatim>\<open>add("k", "A")\<close> the key is stored under the sequence 50; the
  forced \<^verbatim>\<open>add("k", "B", {force: true})\<close>, which supplies no sequence, succeeds and
  stores \<open>"B"\<close> under the sequence \<^verbatim>\<open>undefined\<close>: the sequence the entry had is
  not kept.
\<close>

theorem add_force_drops_previous_sequence:
  "content (snd (add ''k'' (Str ''A'') None (new_Registry None)))
     = [(''k'', Some (Fin 50), Str ''A'')]
   \<and> add ''k'' (Str ''B'') (Some \<lparr>force = Some True, sequence = None\<rparr>)
        (snd (add ''k'' (Str ''A'') None (new_Registry None)))
     = (Inr (), \<lparr> content = [(''k'', None, Str ''B'')], subRegistries = [],
                  elements = None, entries = None, name = ''root'', validationSchema = Null,
                  emitted = [\<lparr> detail = \<lparr> operation = OpAdd, key = ''k'', payload_value = Str ''A'' \<rparr>,
                               seen_elements = None, seen_entries = None \<rparr>,
                             \<lparr> detail = \<lparr> operation = OpAdd, key = ''k'', payload_value = Str ''B'' \<rparr>,
                               seen_elements = None, seen_entries = None \<rparr>] \<rparr>)"
  by (simp add: method_defs value_defs Let_def)


lemma getEntries_cache_ok:
  "cache_ok engine r
     \<Longrightarrow> fst (getEntries engine r) = map (\<lambda>(str, el). (str, snd el)) (sorted_content engine r)"
  by (cases "entries r") (simp_all add: getEntries_def cache_ok_def Let_def)







text \<open>
  Claim C4, as stated, fails twice. \<^verbatim>\<open>remove("k")\<close> on an empty registry emits an
  UPDATE event (with the value \<^verbatim>\<open>undefined\<close>); and removing the key that holds
  \<open>"A"\<close> emits an UPDATE event whose value is the stored array \<open>[50, "A"]\<close>, not the
  value \<open>"A"\<close> that \<^verbatim>\<open>get\<close> returned.
\<close>

theorem remove_absent_emits_counterexample:
  "emitted (remove ''k'' (new_Registry None))
     = [\<lparr> detail = \<lparr> operation = OpDelete, key = ''k'', payload_value = Undefined \<rparr>,
          seen_elements = None, seen_entries = None \<rparr>]
   \<and> emitted (remove ''k'' (new_Registry None))
       \<noteq> emitted (new_Registry None)
   \<and> get ''k'' Undefined (snd (add ''k'' (Str ''A'') None (new_Registry None)))
       = Inr (Str ''A'')
   \<and> map (payload_value \<circ> detail)
       (emitted (remove ''k'' (snd (add ''k'' (Str ''A'') None (new_Registry None)))))
       = [Str ''A'', Arr [Num (Fin 50), Str ''A'']]"
  by (simp add: method_defs value_defs Let_def)

text \<open>
  Claim C4, amended. \<^verbatim>\<open>remove(key)\<close> on an absent key leaves the content of the store
  as it is, yet it is no silent no-op: it resets both caches and emits an UPDATE event
  with the operation delete, the key and the value \<^verbatim>\<open>undefined\<close>. On a present key it
  deletes that entry, leaves every other key as it was, resets both caches and emits one
  UPDATE event with the operation delete and the key.
\<close>

theorem remove_emits_update:
  "elements (remove k r) = None \<and> entries (remove k r) = None
   \<and> \<not> contains k (remove k r)
   \<and> (\<forall>k'. k' \<noteq> k \<longrightarrow> map_get (content (remove k r)) k' = map_get (content r) k')
   \<and> (\<exists>x. emitted (remove k r) = emitted r @
               [\<lparr> detail = \<lparr> operation = OpDelete, key = k, payload_value = x \<rparr>,
                  seen_elements = None, seen_entries = None \<rparr>])
   \<and> (\<not> contains k r \<longrightarrow>
         content (remove k r) = content r
         \<and> emitted (remove k r) = emitted r @
               [\<lparr> detail = \<lparr> operation = OpDelete, key = k, payload_value = Undefined \<rparr>,
                  seen_elements = None, seen_entries = None \<rparr>])"
  by (simp add: remove_def trigger_def deliver_def invalidate_def contains_def map_has_def
      map_get_map_delete map_delete_absent Let_def split: option.split)

theorem remove_emits_update_witness:
  "\<not> contains ''k'' (remove ''k'' (snd (add ''k'' (Str ''A'') None (new_Registry None))))
   \<and> map_get (content (remove ''j'' (snd (add ''k'' (Str ''A'') None (new_Registry None))))) ''k''
       = Some (Some (Fin 50), Str ''A'')
   \<and> \<not> contains ''j'' (snd (add ''k'' (Str ''A'') None (new_Registry None)))
   \<and> content (remove ''j'' (snd (add ''k'' (Str ''A'') None (new_Registry None))))
       = content (snd (add ''k'' (Str ''A'') None (new_Registry None)))
   \<and> map (payload_value \<circ> detail)
       (emitted (remove ''j'' (snd (add ''k'' (Str ''A'') None (new_Registry None)))))
       = [Str ''A'', Undefined]"
  using remove_emits_update [of "''k''" "snd (add ''k'' (Str ''A'') None (new_Registry None))"]
    remove_emits_update [of "''j''" "snd (add ''k'' (Str ''A'') None (new_Registry None))"]
  by (simp add: method_defs value_defs Let_def)

text \<open>
  Claim C5. \<^verbatim>\<open>get(key, fallback)\<close> raises, and then raises KeyNotFoundError, exactly
  when the key is absent and the fallback is \<^verbatim>\<open>undefined\<close>, which is what an omitted
  fallback is. With an absent key and any other fallback, among them the falsy
  \<^verbatim>\<open>null\<close>, \<^verbatim>\<open>false\<close>, \<open>0\<close> and the empty string, it returns the fallback; with
  a present key it returns the stored value.
\<close>

theorem get_raises_iff_absent_and_undefined:
  "((\<exists>e. get k d r = Inl e) \<longleftrightarrow> (\<not> contains k r \<and> d = Undefined))
   \<and> (\<forall>e. get k d r = Inl e \<longrightarrow> e = KeyNotFoundError (key_not_found_msg k))
   \<and> (\<not> contains k r \<and> d \<noteq> Undefined \<longrightarrow> get k d r = Inr d)
   \<and> (\<not> contains k r \<longrightarrow> get k Null r = Inr Null \<and> get k (Bool False) r = Inr (Bool False)
         \<and> get k (Num (Fin 0)) r = Inr (Num (Fin 0)) \<and> get k (Str []) r = Inr (Str []))
   \<and> (\<forall>el. map_get (content r) k = Some el \<longrightarrow> get k d r = Inr (snd el))"
  by (auto simp: get_def contains_def map_has_def split: option.splits)

theorem get_raises_iff_absent_and_undefined_witness:
  "get ''k'' Undefined (new_Registry None)
     = Inl (KeyNotFoundError (key_not_found_msg ''k''))
   \<and> get ''k'' Null (new_Registry None) = Inr Null
   \<and> get ''k'' (Bool False) (new_Registry None) = Inr (Bool False)
   \<and> get ''k'' Null (snd (add ''k'' (Str ''A'') None (new_Registry None)))
       = Inr (Str ''A'')"
  using get_raises_iff_absent_and_undefined [of "''k''" Undefined "new_Registry None"]
    get_raises_iff_absent_and_undefined [of "''k''" Null "new_Registry None"]
    get_raises_iff_absent_and_undefined [of "''k''" Null
      "snd (add ''k'' (Str ''A'') None (new_Registry None))"]
  by (simp add: method_defs value_defs Let_def)

text \<open>
  Claim C7. When the options are omitted, or given with \<^verbatim>\<open>force\<close> false or absent,
  \<^verbatim>\<open>add\<close> raises exactly when the key is present; it then raises DuplicatedKeyError and
  the registry is exactly as before: content, caches and emitted events. On an absent key
  it succeeds and the key is present afterwards.
\<close>

theorem add_duplicate_key:
  assumes "options = None \<or> (\<exists>ob. options = Some ob \<and> force ob \<noteq> Some True)"
  shows "((\<exists>e. fst (add k v options r) = Inl e) \<longleftrightarrow> contains k r)
     \<and> (contains k r \<longrightarrow>
          add k v options r = (Inl (DuplicatedKeyError (duplicated_key_msg k)), r))
     \<and> (\<not> contains k r \<longrightarrow> fst (add k v options r) = Inr () \<and> contains k (snd (add k v options r)))"
  using assms
  by (auto simp: add_def contains_def default_options_def Let_def trigger_def deliver_def
      invalidate_def map_has_map_set)

theorem add_duplicate_key_witness:
  "add ''k'' (Str ''B'') None (snd (add ''k'' (Str ''A'') None (new_Registry None)))
     = (Inl (DuplicatedKeyError (duplicated_key_msg ''k'')),
        snd (add ''k'' (Str ''A'') None (new_Registry None)))
   \<and> add ''k'' (Str ''B'') (Some \<lparr>force = None, sequence = Some (Fin 7)\<rparr>)
        (snd (add ''k'' (Str ''A'') None (new_Registry None)))
     = (Inl (DuplicatedKeyError (duplicated_key_msg ''k'')),
        snd (add ''k'' (Str ''A'') None (new_Registry None)))
   \<and> fst (add ''k'' (Str ''A'') None (new_Registry None)) = Inr ()"
  using add_duplicate_key [of None "''k''" "Str ''B''"
      "snd (add ''k'' (Str ''A'') None (new_Registry None))"]
    add_duplicate_key [of "Some \<lparr>force = None, sequence = Some (Fin 7)\<rparr>" "''k''" "Str ''B''"
      "snd (add ''k'' (Str ''A'') None (new_Registry None))"]
    add_duplicate_key [of None "''k''" "Str ''A''" "new_Registry None"]
  by (simp add: method_defs value_defs Let_def)

lemma validate_entries_ok:
  "(validate_entries validate nm schema es = Inr ())
     = (\<forall>(k, v) \<in> set es. validate v schema = None)"
  by (induction es) (auto simp: validateSchema_def split: option.splits sum.splits)

lemma validate_entries_first:
  "\<forall>(k', v') \<in> set pre. validate v' schema = None \<Longrightarrow> validate v schema = Some err
   \<Longrightarrow> validate_entries validate nm schema (pre @ (k, v) # post)
       = Inl (Error (validation_error_msg nm k err))"
  by (induction pre) (auto simp: validateSchema_def)

lemma addValidation_unset:
  "\<not> truthy (validationSchema r) \<Longrightarrow>
     addValidation engine validate schema r
       = (validate_entries validate (name r) schema (fst (getEntries engine r)),
          (snd (getEntries engine r))\<lparr> validationSchema := schema \<rparr>)"
  by (cases "entries r") (simp_all add: addValidation_def getEntries_def sorted_content_def Let_def)

lemma addValidation_set:
  "truthy (validationSchema r) \<Longrightarrow>
     addValidation engine validate schema r = (Inl (Error schema_already_set_msg), r)"
  by (simp add: addValidation_def)

lemma getEntries_fields:
  "content (snd (getEntries engine r)) = content r"
  "name (snd (getEntries engine r)) = name r"
  "validationSchema (snd (getEntries engine r)) = validationSchema r"
  "subRegistries (snd (getEntries engine r)) = subRegistries r"
  "emitted (snd (getEntries engine r)) = emitted r"
  "elements (snd (getEntries engine r)) = elements r"
  by (cases "entries r"; simp add: getEntries_def Let_def)+

text \<open>
  Claim C6. On a registry with no schema (the field is \<^verbatim>\<open>null\<close>, or falsy),
  \<^verbatim>\<open>addValidation(schema)\<close> stores the schema, leaves the content as it is, succeeds
  exactly when every entry of the store conforms, and otherwise raises the validation
  error of the first entry that does not conform, in the order in which
  \<^verbatim>\<open>getEntries()\<close> lists the store: the order the engine's sort returns. The schema,
  an array or an object and so truthy, stays stored whatever the first call did: a second
  call with any schema raises "Validation schema already set on this registry" and
  changes nothing, as does every call on a registry that has a schema. The engine's sort
  is any function that returns a rearrangement of its array.
\<close>

theorem addValidation_once:
  assumes "cache_ok engine r" and "\<forall>xs. mset (engine by_sequence xs) = mset xs"
  shows "(\<not> truthy (validationSchema r) \<longrightarrow>
            validationSchema (snd (addValidation engine validate schema r)) = schema
          \<and> content (snd (addValidation engine validate schema r)) = content r
          \<and> ((fst (addValidation engine validate schema r) = Inr ())
               = (\<forall>(k, el) \<in> set (content r). validate (snd el) schema = None))
          \<and> (\<forall>pre k el post err.
                sorted_content engine r = pre @ (k, el) # post
                \<and> (\<forall>(k', el') \<in> set pre. validate (snd el') schema = None)
                \<and> validate (snd el) schema = Some err
                \<longrightarrow> fst (addValidation engine validate schema r)
                      = Inl (Error (validation_error_msg (name r) k err)))
          \<and> (truthy schema \<longrightarrow>
               (\<forall>schema2.
                  addValidation engine validate schema2
                    (snd (addValidation engine validate schema r))
                  = (Inl (Error schema_already_set_msg),
                     snd (addValidation engine validate schema r)))))
     \<and> (truthy (validationSchema r) \<longrightarrow>
            addValidation engine validate schema r = (Inl (Error schema_already_set_msg), r))"
proof -
  let ?es = "map (\<lambda>(str, el). (str, snd el)) (sorted_content engine r)"
  have es: "fst (getEntries engine r) = ?es"
    using assms(1) by (rule getEntries_cache_ok)
  have same: "set (sorted_content engine r) = set (content r)"
    using assms(2) by (simp add: sorted_content_def set_sort_by_sequence)
  have set_part: "truthy (validationSchema r) \<longrightarrow>
      addValidation engine validate schema r = (Inl (Error schema_already_set_msg), r)"
    by (auto simp: addValidation_set)
  {
    assume unset: "\<not> truthy (validationSchema r)"
    note av = addValidation_unset [OF unset, of engine validate schema]
    have a: "validationSchema (snd (addValidation engine validate schema r)) = schema"
      by (simp add: av)
    have b: "content (snd (addValidation engine validate schema r)) = content r"
      by (simp add: av getEntries_fields)
    have "(fst (addValidation engine validate schema r) = Inr ())
        = (\<forall>(k, v) \<in> set ?es. validate v schema = None)"
      by (simp add: av es validate_entries_ok)
    also have "\<dots> = (\<forall>(k, el) \<in> set (sorted_content engine r). validate (snd el) schema = None)"
      by auto
    finally have c: "(fst (addValidation engine validate schema r) = Inr ())
        = (\<forall>(k, el) \<in> set (content r). validate (snd el) schema = None)"
      by (simp add: same)
    have d: "fst (addValidation engine validate schema r)
          = Inl (Error (validation_error_msg (name r) k err))"
      if h: "sorted_content engine r = pre @ (k, el) # post"
        "\<forall>(k', el') \<in> set pre. validate (snd el') schema = None"
        "validate (snd el) schema = Some err"
      for pre k el post err
    proof -
      have "?es = map (\<lambda>(str, el). (str, snd el)) pre @ (k, snd el)
                    # map (\<lambda>(str, el). (str, snd el)) post"
        by (simp add: h(1))
      moreover have "\<forall>(k', v') \<in> set (map (\<lambda>(str, el). (str, snd el)) pre).
                        validate v' schema = None"
        using h(2) by auto
      ultimately show ?thesis
        using h(3) by (simp add: av es validate_entries_first)
    qed
    have e: "addValidation engine validate schema2 (snd (addValidation engine validate schema r))
        = (Inl (Error schema_already_set_msg), snd (addValidation engine validate schema r))"
      if "truthy schema" for schema2
      using a that by (simp add: addValidation_set)
    note a b c d e
  }
  then show ?thesis using set_part by blast
qed

text \<open>
  The registry of the keys \<open>k0\<close> to \<open>k3\<close>, whose sequences are 50, 0,
  \<^verbatim>\<open>undefined\<close> and 0, validated by a schema that admits strings only. The engine lists
  it as \<open>k1, k3, k0, k2\<close>; of the two entries that do not conform, \<open>k2\<close> and
  \<open>k3\<close>, the first call raises for \<open>k3\<close>. It stores the schema, and the second
  call raises the error of a schema already set.
\<close>

theorem addValidation_once_witness:
  "cache_ok binary_insertion_sort store_k
   \<and> (\<forall>xs. mset (binary_insertion_sort by_sequence xs) = mset xs)
   \<and> \<not> truthy (validationSchema store_k) \<and> truthy demo_schema
   \<and> fst (getEntries binary_insertion_sort store_k)
       = [(''k1'', Str ''v1''), (''k3'', Num (Fin 3)), (''k0'', Str ''v0''), (''k2'', Num (Fin 2))]
   \<and> fst (addValidation binary_insertion_sort demo_validate demo_schema store_k)
       = Inl (Error (validation_error_msg ''root'' ''k3'' ''Error: Invalid object''))
   \<and> validationSchema (snd (addValidation binary_insertion_sort demo_validate demo_schema store_k))
       = demo_schema
   \<and> fst (addValidation binary_insertion_sort demo_validate demo_schema
        (snd (addValidation binary_insertion_sort demo_validate demo_schema store_k)))
       = Inl (Error schema_already_set_msg)
   \<and> fst (addValidation binary_insertion_sort demo_validate demo_schema
        (snd (add ''a'' (Str ''x'') None (new_Registry None))))
       = Inr ()"
proof -
  let ?r1 = "snd (add ''a'' (Str ''x'') None (new_Registry None))"
  have m: "\<forall>xs. mset (binary_insertion_sort by_sequence xs) = mset xs"
    by (simp add: mset_binary_insertion_sort)
  have c1: "cache_ok binary_insertion_sort ?r1"
    by (simp add: cache_ok_def method_defs value_defs Let_def)
  have ck: "cache_ok binary_insertion_sort store_k"
    by (simp add: store_k_def cache_ok_def method_defs value_defs Let_def)
  have sk: "sorted_content binary_insertion_sort store_k
      = [(''k1'', Some (Fin 0), Str ''v1'')] @ (''k3'', Some (Fin 0), Num (Fin 3))
          # [(''k0'', Some (Fin 50), Str ''v0''), (''k2'', None, Num (Fin 2))]"
    by code_simp
  have nm: "name store_k = ''root''" "\<not> truthy (validationSchema store_k)"
    by (simp_all add: store_k_def method_defs value_defs Let_def)
  have ge: "fst (getEntries binary_insertion_sort store_k)
      = [(''k1'', Str ''v1''), (''k3'', Num (Fin 3)), (''k0'', Str ''v0''), (''k2'', Num (Fin 2))]"
    unfolding getEntries_cache_ok [OF ck] sk by simp
  have ts: "truthy demo_schema" by (simp add: demo_schema_def)
  have v: "\<forall>(k', el') \<in> set [(''k1'', Some (Fin 0), Str ''v1'')]. demo_validate (snd el') demo_schema = None"
    "demo_validate (snd (Some (Fin 0), Num (Fin 3))) demo_schema = Some ''Error: Invalid object''"
    by (simp_all add: demo_validate_def)
  have ok1: "fst (addValidation binary_insertion_sort demo_validate demo_schema ?r1) = Inr ()"
    by (simp add: addValidation_def validateSchema_def method_defs value_defs
        demo_validate_def Let_def)
  note once = addValidation_once [OF ck m, of demo_validate demo_schema]
  from once nm(2)
  have t1: "validationSchema (snd (addValidation binary_insertion_sort demo_validate demo_schema store_k))
       = demo_schema"
    by blast
  from once nm(2)
  have first: "sorted_content binary_insertion_sort store_k = pre @ (k, el) # post
      \<Longrightarrow> \<forall>(k', el') \<in> set pre. demo_validate (snd el') demo_schema = None
      \<Longrightarrow> demo_validate (snd el) demo_schema = Some err
      \<Longrightarrow> fst (addValidation binary_insertion_sort demo_validate demo_schema store_k)
          = Inl (Error (validation_error_msg (name store_k) k err))" for pre k el post err
    by blast
  from first [OF sk v]
  have t2: "fst (addValidation binary_insertion_sort demo_validate demo_schema store_k)
       = Inl (Error (validation_error_msg ''root'' ''k3'' ''Error: Invalid object''))"
    by (simp add: nm(1))
  from once nm(2) ts
  have "addValidation binary_insertion_sort demo_validate demo_schema
        (snd (addValidation binary_insertion_sort demo_validate demo_schema store_k))
       = (Inl (Error schema_already_set_msg),
          snd (addValidation binary_insertion_sort demo_validate demo_schema store_k))"
    by blast
  then have t3: "fst (addValidation binary_insertion_sort demo_validate demo_schema
        (snd (addValidation binary_insertion_sort demo_validate demo_schema store_k)))
       = Inl (Error schema_already_set_msg)"
    by simp
  show ?thesis using ck m nm ts ge ok1 t1 t2 t3 by simp
qed

lemma add_content_other:
  "k' \<noteq> k \<Longrightarrow> map_get (content (snd (add k v ob r))) k' = map_get (content r) k'"
  by (simp add: add_def Let_def trigger_def deliver_def invalidate_def map_get_map_set)

lemma add_fresh:
  "\<not> map_has (content r) k \<Longrightarrow>
     fst (add k v ob r) = Inr () \<and> (\<exists>s. map_get (content (snd (add k v ob r))) k = Some (s, v))"
  by (simp add: add_def Let_def trigger_def deliver_def invalidate_def map_get_map_set)

lemma get_present: "map_get (content r) k = Some (s, v) \<Longrightarrow> get k d r = Inr v"
  by (simp add: get_def map_has_def)

lemma add_all_content_other:
  "k \<notin> fst ` set as \<Longrightarrow> map_get (content (snd (add_all as r))) k = map_get (content r) k"
proof (induction as arbitrary: r)
  case Nil
  show ?case by simp
next
  case (Cons a as)
  obtain k' v' ob' where a: "a = (k', v', ob')" by (cases a)
  from Cons.prems a have ne: "k \<noteq> k'" and rest: "k \<notin> fst ` set as" by auto
  show ?case
  proof (cases "add k' v' ob' r")
    case (Pair res r')
    have r': "r' = snd (add k' v' ob' r)" using Pair by simp
    show ?thesis
    proof (cases res)
      case (Inl e)
      have "add_all (a # as) r = (Inl e, r')" using Pair Inl a by simp
      then show ?thesis using r' ne by (simp add: add_content_other)
    next
      case (Inr u)
      have "add_all (a # as) r = add_all as r'" using Pair Inr a by simp
      then show ?thesis using r' ne Cons.IH [OF rest, of r'] by (simp add: add_content_other)
    qed
  qed
qed

lemma add_stored:
  "fst (add k v ob r) = Inr () \<Longrightarrow> \<exists>s. map_get (content (snd (add k v ob r))) k = Some (s, v)"
  by (auto simp: add_def Let_def trigger_def deliver_def invalidate_def map_get_map_set
      split: if_splits)

lemma add_all_get:
  "distinct (map fst as) \<Longrightarrow> fst (add_all as r) = Inr ()
     \<Longrightarrow> \<forall>(k, v, ob) \<in> set as. \<forall>d. get k d (snd (add_all as r)) = Inr v"
proof (induction as arbitrary: r)
  case Nil
  show ?case by simp
next
  case (Cons a as)
  obtain k v ob where a: "a = (k, v, ob)" by (cases a)
  let ?r' = "snd (add k v ob r)"
  from Cons.prems(1) a have notin: "k \<notin> fst ` set as" and dist: "distinct (map fst as)"
    by auto
  have ok: "fst (add k v ob r) = Inr ()"
    using Cons.prems(2) a by (cases "add k v ob r") (auto split: sum.splits)
  have step: "add_all ((k, v, ob) # as) r = add_all as ?r'"
    using ok by (cases "add k v ob r") simp
  have rest: "fst (add_all as ?r') = Inr ()"
    using Cons.prems(2) unfolding a step .
  from add_stored [OF ok] obtain s where "map_get (content ?r') k = Some (s, v)" by blast
  then have "map_get (content (snd (add_all as ?r'))) k = Some (s, v)"
    using add_all_content_other [OF notin, of ?r'] by simp
  then have here: "\<forall>d. get k d (snd (add_all as ?r')) = Inr v"
    by (simp add: get_present)
  show ?case unfolding a step using Cons.IH [OF dist rest] here by simp
qed

lemma add_all_fresh:
  "distinct (map fst as) \<Longrightarrow> \<forall>k \<in> fst ` set as. \<not> contains k r
     \<Longrightarrow> fst (add_all as r) = Inr ()"
proof (induction as arbitrary: r)
  case Nil
  show ?case by simp
next
  case (Cons a as)
  obtain k v ob where a: "a = (k, v, ob)" by (cases a)
  let ?r' = "snd (add k v ob r)"
  from Cons.prems a have fresh: "\<not> map_has (content r) k"
    and notin: "k \<notin> fst ` set as" and dist: "distinct (map fst as)"
    by (auto simp: contains_def)
  from add_fresh [OF fresh, of v ob] have ok: "fst (add k v ob r) = Inr ()" by blast
  have step: "add_all ((k, v, ob) # as) r = add_all as ?r'"
    using ok by (cases "add k v ob r") simp
  have fresh': "\<forall>k' \<in> fst ` set as. \<not> contains k' ?r'"
  proof
    fix k' assume k': "k' \<in> fst ` set as"
    then have "k' \<noteq> k" using notin by auto
    then have "map_get (content ?r') k' = map_get (content r) k'" by (rule add_content_other)
    moreover have "\<not> contains k' r" using Cons.prems(2) k' by auto
    ultimately show "\<not> contains k' ?r'" by (simp add: contains_def map_has_def)
  qed
  show ?case unfolding a step using Cons.IH [OF dist fresh'] .
qed

text \<open>
  Claim C8. Take a chain of \<^verbatim>\<open>add\<close> calls with pairwise distinct keys, any values and
  any options. If none of the keys is in the registry before, the chain succeeds; and
  whenever the chain succeeds, \<^verbatim>\<open>get(k)\<close>, with or without a fallback, returns for each
  key the value it was added with.
\<close>

theorem add_then_get:
  assumes "distinct (map fst as)"
  shows "((\<forall>k \<in> fst ` set as. \<not> contains k r) \<longrightarrow> fst (add_all as r) = Inr ())
     \<and> (fst (add_all as r) = Inr () \<longrightarrow>
          (\<forall>(k, v, ob) \<in> set as. \<forall>d. get k d (snd (add_all as r)) = Inr v))"
  using assms add_all_fresh [of as r] add_all_get [of as r] by blast

theorem add_then_get_witness:
  "distinct (map fst [(''a'', Str ''x'', None), (''b'', Num (Fin 2), Some \<lparr>force = Some True, sequence = None\<rparr>)])
   \<and> fst (add_all [(''a'', Str ''x'', None), (''b'', Num (Fin 2), Some \<lparr>force = Some True, sequence = None\<rparr>)]
        (new_Registry None)) = Inr ()
   \<and> get ''a'' Undefined (snd (add_all [(''a'', Str ''x'', None),
          (''b'', Num (Fin 2), Some \<lparr>force = Some True, sequence = None\<rparr>)]
        (new_Registry None))) = Inr (Str ''x'')
   \<and> get ''b'' Undefined (snd (add_all [(''a'', Str ''x'', None),
          (''b'', Num (Fin 2), Some \<lparr>force = Some True, sequence = None\<rparr>)]
        (new_Registry None))) = Inr (Num (Fin 2))"
proof -
  let ?as = "[(''a'', Str ''x'', None), (''b'', Num (Fin 2), Some \<lparr>force = Some True, sequence = None\<rparr>)]"
  have d: "distinct (map fst ?as)" by simp
  have f: "\<forall>k \<in> fst ` set ?as. \<not> contains k (new_Registry None)"
    by (simp add: contains_def map_has_def new_Registry_def)
  from add_then_get [OF d, of "new_Registry None"] f show ?thesis by simp
qed




















lemma category_heap:
  "this < length h \<Longrightarrow>
   snd (category s this h) =
     (case map_get (subRegistries (h ! this)) s of
        Some c \<Rightarrow> h
      | None \<Rightarrow> (h @ [new_Registry None])
          [this := (h ! this)\<lparr> subRegistries := map_set (subRegistries (h ! this)) s (length h) \<rparr>])"
  by (simp add: category_def Let_def nth_append split: option.split)

lemma category_ref:
  "fst (category s this h) =
     (case map_get (subRegistries (h ! this)) s of Some c \<Rightarrow> c | None \<Rightarrow> length h)"
  by (simp add: category_def Let_def split: option.split)






lemma validate_entries_error:
  "validate_entries validate nm schema es = Inl e
     \<Longrightarrow> \<exists>k err. e = Error (validation_error_msg nm k err)"
proof (induction es)
  case Nil
  then show ?case by simp
next
  case (Cons x es)
  obtain k v where x: "x = (k, v)" by (cases x)
  show ?case
  proof (cases "validate v schema")
    case None
    then show ?thesis using Cons x by (simp add: validateSchema_def)
  next
    case (Some err)
    then have "e = Error (validation_error_msg nm k err)"
      using Cons.prems x by (simp add: validateSchema_def)
    then show ?thesis by blast
  qed
qed

lemma addValidation_error:
  "fst (addValidation engine validate sch r) = Inl e
     \<Longrightarrow> e = Error schema_already_set_msg \<or> (\<exists>k err. e = Error (validation_error_msg (name r) k err))"
proof (cases "truthy (validationSchema r)")
  case False
  assume "fst (addValidation engine validate sch r) = Inl e"
  then show ?thesis
    by (simp add: addValidation_unset [OF False] validate_entries_error)
next
  case True
  assume "fst (addValidation engine validate sch r) = Inl e"
  then show ?thesis by (simp add: addValidation_set [OF True])
qed

lemma getAll_fields:
  "name (snd (getAll engine r)) = name r"
  "subRegistries (snd (getAll engine r)) = subRegistries r"
  by (cases "elements r"; simp add: getAll_def Let_def)+

lemma add_fields:
  "name (snd (add k v ob r)) = name r"
  "subRegistries (snd (add k v ob r)) = subRegistries r"
  by (simp_all add: add_def Let_def trigger_def deliver_def invalidate_def)

lemma remove_fields:
  "name (remove k r) = name r"
  "subRegistries (remove k r) = subRegistries r"
  by (simp_all add: remove_def Let_def trigger_def deliver_def invalidate_def)

lemma addValidation_fields:
  "name (snd (addValidation engine validate s r)) = name r"
  "subRegistries (snd (addValidation engine validate s r)) = subRegistries r"
  by (cases "truthy (validationSchema r)";
      simp add: addValidation_unset addValidation_set getEntries_fields)+

lemma exec_length: "length h \<le> length (exec engine validate c h)"
  by (cases c) (auto simp: category_def Let_def split: option.split)

lemma exec_name:
  "a < length h \<Longrightarrow> target c < length h \<Longrightarrow> name (exec engine validate c h ! a) = name (h ! a)"
  by (cases c)
    (auto simp: nth_list_update nth_append add_fields remove_fields getAll_fields
      getEntries_fields addValidation_fields category_heap split: option.split)

lemma exec_subRegistries:
  "a < length h \<Longrightarrow> target c < length h \<Longrightarrow> map_get (subRegistries (h ! a)) s = Some x
     \<Longrightarrow> map_get (subRegistries (exec engine validate c h ! a)) s = Some x"
  by (cases c)
    (auto simp: nth_list_update nth_append add_fields remove_fields getAll_fields
      getEntries_fields addValidation_fields category_heap map_get_map_set split: option.split)

lemma exec_all_keeps:
  "a < length h \<Longrightarrow> calls_ok engine validate cs h \<Longrightarrow> map_get (subRegistries (h ! a)) s = Some x
     \<Longrightarrow> b < length h
     \<Longrightarrow> a < length (exec_all engine validate cs h)
         \<and> map_get (subRegistries (exec_all engine validate cs h ! a)) s = Some x
         \<and> name (exec_all engine validate cs h ! b) = name (h ! b)"
proof (induction cs arbitrary: h)
  case Nil
  then show ?case by simp
next
  case (Cons c cs)
  let ?h = "exec engine validate c h"
  from Cons.prems have t: "target c < length h" and ok: "calls_ok engine validate cs ?h" by simp_all
  have len: "length h \<le> length ?h" by (rule exec_length)
  have a: "a < length ?h" and b: "b < length ?h" using Cons.prems len by simp_all
  have sub: "map_get (subRegistries (?h ! a)) s = Some x"
    using Cons.prems(1) t Cons.prems(3) by (rule exec_subRegistries)
  have nm: "name (?h ! b) = name (h ! b)" using Cons.prems(4) t by (rule exec_name)
  from Cons.IH [OF a ok sub b] nm show ?case by simp
qed

text \<open>
  Claim C10. When \<^verbatim>\<open>r.category(s)\<close> creates the child, the child is a new object, equal
  to \<^verbatim>\<open>new Registry()\<close>: its name is \<open>"root"\<close> whatever \<open>s\<close> is, and it holds
  nothing that refers to its parent; the other objects are untouched. After any later
  calls on any objects, \<^verbatim>\<open>r.category(s)\<close> returns the same reference and changes
  nothing, the child's name is still \<open>"root"\<close>, and an error that
  \<^verbatim>\<open>addValidation\<close> raises on the child is either that of a schema already set or a
  validation error whose message reads
  \<^verbatim>\<open>Validation error for key "k" in registry "root": \<close> followed by the text of the
  library's error, for the key \<open>k\<close> of the entry.
\<close>

theorem category_child_named_root:
  assumes \<open>this < length h\<close> and \<open>map_get (subRegistries (h ! this)) s = None\<close>
    and \<open>calls_ok engine validate cs (snd (category s this h))\<close>
  shows \<open>fst (category s this h) = length h
     \<and> length (snd (category s this h)) = Suc (length h)
     \<and> snd (category s this h) ! fst (category s this h) = new_Registry None
     \<and> name (snd (category s this h) ! fst (category s this h)) = ''root''
     \<and> (\<forall>a < length h. a \<noteq> this \<longrightarrow> snd (category s this h) ! a = h ! a)
     \<and> category s this (exec_all engine validate cs (snd (category s this h)))
         = (fst (category s this h), exec_all engine validate cs (snd (category s this h)))
     \<and> name (exec_all engine validate cs (snd (category s this h)) ! fst (category s this h))
         = ''root''
     \<and> (\<forall>sch e. fst (addValidation engine validate sch
                       (exec_all engine validate cs (snd (category s this h))
                          ! fst (category s this h)))
                   = Inl e
           \<longrightarrow> e = Error ''Validation schema already set on this registry''
               \<or> (\<exists>k err. e = Error (''Validation error for key "'' @ k
                                        @ ''" in registry "root": '' @ err)))\<close>
proof -
  define c where "c = fst (category s this h)"
  define h1 where "h1 = snd (category s this h)"
  define h2 where "h2 = exec_all engine validate cs h1"
  have c: "c = length h" using assms(2) by (simp add: c_def category_ref)
  have h1: "h1 = (h @ [new_Registry None])
      [this := (h ! this)\<lparr> subRegistries := map_set (subRegistries (h ! this)) s (length h) \<rparr>]"
    using assms(1,2) by (simp add: h1_def category_heap)
  have len: "length h1 = Suc (length h)" by (simp add: h1)
  have child: "h1 ! c = new_Registry None" using assms(1) by (simp add: h1 c nth_list_update)
  have nm: "name (h1 ! c) = ''root''" by (simp add: child new_Registry_def)
  have others: "\<forall>a < length h. a \<noteq> this \<longrightarrow> h1 ! a = h ! a"
    by (simp add: h1 nth_list_update nth_append)
  have this1: "this < length h1" and c1: "c < length h1" using assms(1) by (simp_all add: len c)
  have sub1: "map_get (subRegistries (h1 ! this)) s = Some c"
    using assms(1) by (simp add: h1 c nth_list_update map_get_map_set)
  have ok: "calls_ok engine validate cs h1" using assms(3) by (simp add: h1_def)
  from exec_all_keeps [OF this1 ok sub1 c1]
  have this2: "this < length h2" and sub2: "map_get (subRegistries (h2 ! this)) s = Some c"
    and nm2: "name (h2 ! c) = ''root''"
    by (simp_all add: h2_def nm)
  have again: "category s this h2 = (c, h2)" using sub2 by (simp add: category_def)
  have err: \<open>e = Error ''Validation schema already set on this registry''
               \<or> (\<exists>k err. e = Error (''Validation error for key "'' @ k
                                        @ ''" in registry "root": '' @ err))\<close>
    if "fst (addValidation engine validate sch (h2 ! c)) = Inl e" for sch e
    using addValidation_error [OF that]
    by (simp add: nm2 schema_already_set_msg_def validation_error_msg_def)
  show ?thesis
    using c len child nm others again nm2 err
    unfolding c_def h1_def h2_def by simp
qed

text \<open>
  The sub-registry \<open>"main_components"\<close> of the root registry, as
  \<^verbatim>\<open>main_components_container.ts\<close> opens it: a value that is not a string is added to
  it, and the validation error names the registry \<open>"root"\<close>.
\<close>

theorem category_child_named_root_witness:
  \<open>category ''main_components'' 0 [new_Registry None]
     = (1, [(new_Registry None) \<lparr> subRegistries := [(''main_components'', 1)] \<rparr>,
            new_Registry None])
   \<and> calls_ok binary_insertion_sort demo_validate [Add 1 ''b'' (Num (Fin 2)) None, GetEntries 1]
        (snd (category ''main_components'' 0 [new_Registry None]))
   \<and> fst (category ''main_components'' 0
        (exec_all binary_insertion_sort demo_validate [Add 1 ''b'' (Num (Fin 2)) None, GetEntries 1]
          (snd (category ''main_components'' 0 [new_Registry None])))) = 1
   \<and> name (exec_all binary_insertion_sort demo_validate [Add 1 ''b'' (Num (Fin 2)) None, GetEntries 1]
        (snd (category ''main_components'' 0 [new_Registry None])) ! 1) = ''root''
   \<and> fst (addValidation binary_insertion_sort demo_validate demo_schema
        (exec_all binary_insertion_sort demo_validate [Add 1 ''b'' (Num (Fin 2)) None, GetEntries 1]
          (snd (category ''main_components'' 0 [new_Registry None])) ! 1))
       = Inl (Error ''Validation error for key "b" in registry "root": Error: Invalid object'')\<close>
proof -
  let ?E = "binary_insertion_sort :: (string \<times> elem) sorter"
  let ?h = "[new_Registry None]"
  let ?cs = "[Add 1 ''b'' (Num (Fin 2)) None, GetEntries 1] :: call list"
  have cat: "category ''main_components'' 0 ?h
     = (1, [(new_Registry None) \<lparr> subRegistries := [(''main_components'', 1)] \<rparr>,
            new_Registry None])"
    by (simp add: category_def new_Registry_def Let_def)
  have a: "0 < length ?h" by simp
  have b: "map_get (subRegistries (?h ! 0)) ''main_components'' = None"
    by (simp add: new_Registry_def)
  have c: "calls_ok ?E demo_validate ?cs (snd (category ''main_components'' 0 ?h))"
    by (simp add: cat)
  have d: \<open>fst (addValidation ?E demo_validate demo_schema
        (exec_all ?E demo_validate ?cs (snd (category ''main_components'' 0 ?h)) ! 1))
       = Inl (Error ''Validation error for key "b" in registry "root": Error: Invalid object'')\<close>
    unfolding cat
    by (simp add: method_defs value_defs addValidation_def validateSchema_def
        validation_error_msg_def demo_validate_def demo_schema_def Let_def)
  from category_child_named_root [OF a b c] show ?thesis
    using cat c d by simp
qed

end
